theory Spec2Isabelle
  imports Main "HOL-Library.AList"
begin

section \<open>JavaScript values\<close>

text \<open>
  The values a \<^verbatim>\<open>ListOptions\<close> object holds are
  \<^verbatim>\<open>string | number | boolean | undefined\<close>; the page cursor may also be
  \<^verbatim>\<open>null\<close>, which \<^verbatim>\<open>pagedRequest\<close> writes for a missing header.
  A number is an integer or \<^verbatim>\<open>NaN\<close>: the page numbers and page sizes of the
  client are integers, and \<^verbatim>\<open>NaN\<close> is what \<^verbatim>\<open>Number\<close> gives on
  text that is not a number. The integers meant are those that JavaScript holds
  exactly and prints in decimal, of magnitude below \<open>2^53\<close>; fractions and
  infinities are outside the model.
\<close>

datatype jsnum = NaN | Num int

datatype jsval = JUndefined | JNull | JBool bool | JNum jsnum | JStr string

text \<open>The conversion to boolean that \<^verbatim>\<open>if (v)\<close>, \<^verbatim>\<open>v && e\<close>,
  \<^verbatim>\<open>v ? a : b\<close> and \<^verbatim>\<open>while (v)\<close> apply.\<close>

fun truthy :: "jsval \<Rightarrow> bool" where
  "truthy JUndefined = False"
| "truthy JNull = False"
| "truthy (JBool b) = b"
| "truthy (JNum NaN) = False"
| "truthy (JNum (Num n)) = (n \<noteq> 0)"
| "truthy (JStr s) = (s \<noteq> [])"

subsection \<open>Decimal numerals\<close>

definition digit_char :: "nat \<Rightarrow> char" where
  "digit_char d = char_of (48 + d)"

fun decimal :: "nat \<Rightarrow> string" where
  "decimal n = (if n < 10 then [digit_char n] else decimal (n div 10) @ [digit_char (n mod 10)])"

declare decimal.simps [simp del]

definition int_toString :: "int \<Rightarrow> string" where
  "int_toString i = (if i < 0 then CHR ''-'' # decimal (nat (- i)) else decimal (nat i))"

text \<open>\<^verbatim>\<open>v.toString()\<close>. The client calls it on truthy values only; on
  \<^verbatim>\<open>undefined\<close> and \<^verbatim>\<open>null\<close> JavaScript would raise, and the model
  gives the name of the value.\<close>

fun toString :: "jsval \<Rightarrow> string" where
  "toString (JStr s) = s"
| "toString (JBool b) = (if b then ''true'' else ''false'')"
| "toString (JNum NaN) = ''NaN''"
| "toString (JNum (Num n)) = int_toString n"
| "toString JUndefined = ''undefined''"
| "toString JNull = ''null''"

section \<open>Percent encoding\<close>

text \<open>Strings are byte strings in UTF-8. Both encoders work on the bytes: a byte
  outside the set an encoder keeps becomes \<^verbatim>\<open>%XX\<close> in upper-case
  hexadecimal.\<close>

definition hex_digit :: "nat \<Rightarrow> char" where
  "hex_digit d = (if d < 10 then char_of (48 + d) else char_of (55 + d))"

definition percent_byte :: "char \<Rightarrow> string" where
  "percent_byte c = [CHR ''%'', hex_digit (of_char c div 16), hex_digit (of_char c mod 16)]"

definition is_alnum :: "char \<Rightarrow> bool" where
  "is_alnum c = (let n = (of_char c :: nat) in
     (48 \<le> n \<and> n \<le> 57) \<or> (65 \<le> n \<and> n \<le> 90) \<or> (97 \<le> n \<and> n \<le> 122))"

text \<open>\<^verbatim>\<open>encodeURIComponent\<close>: letters, digits and \<^verbatim>\<open>- _ . ! ~ * ' ( )\<close> stay.\<close>

definition uri_unreserved :: "char \<Rightarrow> bool" where
  "uri_unreserved c = (is_alnum c \<or> c \<in> set ''-_.!~*'' \<or> c = CHR 0x27 \<or> c \<in> set ''()'')"

definition encodeURIComponent :: "string \<Rightarrow> string" where
  "encodeURIComponent s = concat (map (\<lambda>c. if uri_unreserved c then [c] else percent_byte c) s)"

text \<open>The serializer of \<^verbatim>\<open>URLSearchParams\<close>
  (\<^verbatim>\<open>application/x-www-form-urlencoded\<close>): letters, digits and
  \<^verbatim>\<open>* - . _\<close> stay, a space becomes \<^verbatim>\<open>+\<close>, names and values are joined
  by \<^verbatim>\<open>=\<close> and the pairs by \<^verbatim>\<open>&\<close>.\<close>

definition form_byte :: "char \<Rightarrow> string" where
  "form_byte c = (if is_alnum c \<or> c \<in> set ''*-._'' then [c]
                  else if c = CHR '' '' then ''+'' else percent_byte c)"

definition form_encode :: "string \<Rightarrow> string" where
  "form_encode s = concat (map form_byte s)"

fun join_amp :: "string list \<Rightarrow> string" where
  "join_amp [] = []"
| "join_amp [p] = p"
| "join_amp (p # q # ps) = p @ CHR ''&'' # join_amp (q # ps)"

definition form_pair :: "string \<times> string \<Rightarrow> string" where
  "form_pair kv = form_encode (fst kv) @ CHR ''='' # form_encode (snd kv)"

definition URLSearchParams_toString :: "(string \<times> string) list \<Rightarrow> string" where
  "URLSearchParams_toString ps = join_amp (map form_pair ps)"

section \<open>Query options\<close>

text \<open>A \<^verbatim>\<open>ListOptions\<close> object is the list of its properties in the order
  \<^verbatim>\<open>for (const key in options)\<close> visits them, each key once. An assignment
  \<^verbatim>\<open>options.page = v\<close> overwrites the property where it stands, or adds it
  at the end.\<close>

type_synonym ListOptions = "(string \<times> jsval) list"

definition set_page :: "jsval \<Rightarrow> ListOptions \<Rightarrow> ListOptions" where
  "set_page v options = AList.update ''page'' v options"

text \<open>The loop of \<^verbatim>\<open>listOptionsToQueryString\<close>: the pairs it appends to
  \<^verbatim>\<open>search\<close>.\<close>

fun search_append :: "ListOptions \<Rightarrow> (string \<times> string) list" where
  "search_append [] = []"
| "search_append ((key, v) # options) =
     (if truthy v then (key, toString v) # search_append options else search_append options)"

text \<open>The argument is optional: \<^verbatim>\<open>for ... in undefined\<close> visits nothing.\<close>

definition listOptionsToQueryString :: "ListOptions option \<Rightarrow> string" where
  "listOptionsToQueryString options =
     (let search = (case options of None \<Rightarrow> [] | Some opts \<Rightarrow> search_append opts);
          query = URLSearchParams_toString search
      in if query = [] then [] else CHR ''?'' # query)"

section \<open>The pagination engine\<close>

datatype error = Error string | InputError string | TypeError string | FetchError string | SyntaxError string

record 'a PagedResponse =
  items :: "'a list"
  nextPage :: jsval

datatype 'a event = Fetch ListOptions "error + 'a PagedResponse" | Yield 'a

text \<open>How a walk stands: the generator has returned, it has thrown, or it is
  suspended before its next fetch because the consumer advances it no further.\<close>

datatype outcome = Returned | Thrown error | Suspended

record ('a, 's) walk =
  events :: "'a event list"
  result :: outcome
  options_after :: ListOptions
  state_after :: 's

text \<open>A page request is a function of the options and of the state \<open>'s\<close> of
  whatever it talks to; it gets the options object as it stands at the call and
  leaves it as it is.\<close>

type_synonym ('a, 's) page_request = "ListOptions \<Rightarrow> 's \<Rightarrow> (error + 'a PagedResponse) \<times> 's"

text \<open>The generator \<^verbatim>\<open>paginated\<close>, advanced by a consumer that lets it fetch
  at most \<open>n\<close> pages. The loop may go on for ever, so the number of pages
  bounds the recursion; a walk that ends within \<open>n\<close> pages is \<open>Returned\<close> or
  \<open>Thrown\<close>. The events are what the generator does, in order: each call of
  \<open>request\<close> with the options passed and what came back, and each item
  yielded.\<close>

fun paginated :: "nat \<Rightarrow> ('a, 's) page_request \<Rightarrow> ListOptions \<Rightarrow> 's \<Rightarrow> ('a, 's) walk" where
  "paginated 0 request options s =
     \<lparr>events = [], result = Suspended, options_after = options, state_after = s\<rparr>"
| "paginated (Suc n) request options s =
     (case request options s of
        (Inl e, s') \<Rightarrow>
          \<lparr>events = [Fetch options (Inl e)], result = Thrown e,
           options_after = options, state_after = s'\<rparr>
      | (Inr res, s') \<Rightarrow>
          (let options' = set_page (nextPage res) options;
               evs = Fetch options (Inr res) # map Yield (items res)
           in if truthy (nextPage res)
              then (let w = paginated n request options' s' in w\<lparr>events := evs @ events w\<rparr>)
              else \<lparr>events = evs, result = Returned,
                    options_after = options', state_after = s'\<rparr>))"

section \<open>The GitLab client\<close>

record GitLabIntegrationConfig =
  host :: string
  apiBaseUrl :: string
  baseUrl :: string

record GitLabIntegration =
  config :: GitLabIntegrationConfig

text \<open>A response of the transport. \<^verbatim>\<open>headers.get\<close> gives the value of a
  header or \<^verbatim>\<open>null\<close>; \<^verbatim>\<open>json()\<close> gives the decoded body, taken to be
  an array, or fails.\<close>

record 'a Response =
  status :: nat
  statusText :: string
  headers_get :: "string \<Rightarrow> string option"
  json :: "error + 'a list"

text \<open>\<^verbatim>\<open>response.ok\<close> of node-fetch: the status is in the range 200 to 299.\<close>

definition ok :: "'a Response \<Rightarrow> bool" where
  "ok response = (200 \<le> status response \<and> status response < 300)"

text \<open>What the client takes from outside this file: the conversion
  \<^verbatim>\<open>Number\<close> of a header value, the URL parser (\<^verbatim>\<open>new URL(s).toString()\<close>,
  which may fail), the transport \<^verbatim>\<open>fetch\<close> on a state \<open>'s\<close> of the network,
  the request options of an integration and their merge with the caller's, and
  \<^verbatim>\<open>parseGroupUrl\<close> of \<^verbatim>\<open>./url\<close>, which gives the group path of a
  URL, nothing, or fails.\<close>

record ('o, 'a, 's) env =
  Number :: "string \<Rightarrow> jsnum"
  new_URL :: "string \<Rightarrow> error + string"
  fetch :: "string \<Rightarrow> 'o \<Rightarrow> 's \<Rightarrow> (error + 'a Response) \<times> 's"
  getGitLabRequestOptions :: "GitLabIntegrationConfig \<Rightarrow> 'o"
  merge :: "'o \<Rightarrow> 'o option \<Rightarrow> 'o"
  parseGroupUrl :: "string \<Rightarrow> string \<Rightarrow> error + string option"

text \<open>The client object. Its constructor stores its argument
  (\<^verbatim>\<open>private readonly options\<close>) and nothing else, while \<^verbatim>\<open>request\<close>
  reads \<^verbatim>\<open>this.config\<close> and \<^verbatim>\<open>this.logger\<close>: the two properties are
  part of the object's state, absent after construction.\<close>

record GitLabClient =
  byUrl :: "string \<Rightarrow> GitLabIntegration option"
  this_config :: "GitLabIntegrationConfig option"
  this_logger :: "unit option"

definition new_GitLabClient :: "(string \<Rightarrow> GitLabIntegration option) \<Rightarrow> GitLabClient" where
  "new_GitLabClient integrations = \<lparr>byUrl = integrations, this_config = None, this_logger = None\<rparr>"

definition undefined_read :: "string \<Rightarrow> error" where
  "undefined_read property =
     TypeError (''Cannot read properties of undefined (reading '' @ [CHR 0x27] @ property @ [CHR 0x27] @ '')'')"

definition unexpected_response :: "string \<Rightarrow> 'a Response \<Rightarrow> error" where
  "unexpected_response url response =
     Error (''Unexpected response when fetching '' @ url @ ''. Expected 200 but got ''
            @ decimal (status response) @ '' - '' @ statusText response)"

definition request ::
  "('o, 'a, 's) env \<Rightarrow> GitLabClient \<Rightarrow> string \<Rightarrow> 'o option \<Rightarrow> 's \<Rightarrow> (error + 'a Response) \<times> 's" where
  "request env this endpoint init s =
     (case this_config this of
        None \<Rightarrow> (Inl (undefined_read ''apiBaseUrl''), s)
      | Some cfg \<Rightarrow>
          (case new_URL env (apiBaseUrl cfg @ endpoint) of
             Inl e \<Rightarrow> (Inl e, s)
           | Inr url \<Rightarrow>
               (case this_logger this of
                  None \<Rightarrow> (Inl (undefined_read ''debug''), s)
                | Some _ \<Rightarrow>
                    (case fetch env url (merge env (getGitLabRequestOptions env cfg) init) s of
                       (Inl e, s') \<Rightarrow> (Inl e, s')
                     | (Inr response, s') \<Rightarrow>
                         if \<not> ok response then (Inl (unexpected_response url response), s')
                         else (Inr response, s')))))"

text \<open>The callback of \<^verbatim>\<open>pagedRequest\<close>, run on the decoded body.\<close>

definition paged_response :: "(string \<Rightarrow> jsnum) \<Rightarrow> 'a Response \<Rightarrow> 'a list \<Rightarrow> 'a PagedResponse" where
  "paged_response number response its =
     (let nextPage = headers_get response ''x-next-page''
      in \<lparr>items = its,
          nextPage = (case nextPage of
                        None \<Rightarrow> JNull
                      | Some h \<Rightarrow> if h \<noteq> [] then JNum (number h) else JNull)\<rparr>)"

definition pagedRequest ::
  "('o, 'a, 's) env \<Rightarrow> GitLabClient \<Rightarrow> string \<Rightarrow> ListOptions option \<Rightarrow> 's
     \<Rightarrow> (error + 'a PagedResponse) \<times> 's" where
  "pagedRequest env this endpoint options s =
     (let queryString = listOptionsToQueryString options
      in case request env this (endpoint @ queryString) None s of
           (Inl e, s') \<Rightarrow> (Inl e, s')
         | (Inr response, s') \<Rightarrow>
             (case json response of
                Inl e \<Rightarrow> (Inl e, s')
              | Inr its \<Rightarrow> (Inr (paged_response (Number env) response its), s')))"

definition getIntegration :: "GitLabClient \<Rightarrow> string \<Rightarrow> error + GitLabIntegration" where
  "getIntegration this url =
     (case byUrl this url of
        None \<Rightarrow> Inl (InputError (''No GitLab integration found for URL '' @ url
                 @ '', Please add a configuration entry for it under integrations.gitlab.''))
      | Some integration \<Rightarrow> Inr integration)"

subsection \<open>The listing operations\<close>

text \<open>A call \<^verbatim>\<open>paginated(request, options)\<close> runs nothing: it gives a
  generator, which holds the two arguments until a consumer advances it.
  \<open>consume n\<close> advances it through at most \<open>n\<close> pages.\<close>

type_synonym ('a, 's) generator = "('a, 's) page_request \<times> ListOptions"

definition consume :: "nat \<Rightarrow> ('a, 's) generator \<Rightarrow> 's \<Rightarrow> ('a, 's) walk" where
  "consume n g s = paginated n (fst g) (snd g) s"

record ProjectsOptions =
  last_activity_after :: "string option"

record UsersOptions =
  inherited :: "bool option"
  blocked :: "bool option"

text \<open>\<^verbatim>\<open>if (groupFullPath)\<close>: a path that is present and not empty.\<close>

fun group_of :: "string option \<Rightarrow> string option" where
  "group_of None = None"
| "group_of (Some g) = (if g \<noteq> [] then Some g else None)"

text \<open>\<^verbatim>\<open>...(options?.last_activity_after && {last_activity_after: ...})\<close>\<close>

definition spread_last_activity_after :: "ProjectsOptions option \<Rightarrow> ListOptions" where
  "spread_last_activity_after options =
     (case options of
        None \<Rightarrow> []
      | Some opts \<Rightarrow>
          (case last_activity_after opts of
             None \<Rightarrow> []
           | Some d \<Rightarrow> if d \<noteq> [] then [(''last_activity_after'', JStr d)] else []))"

definition listProjects ::
  "('o, 'a, 's) env \<Rightarrow> GitLabClient \<Rightarrow> string \<Rightarrow> ProjectsOptions option
     \<Rightarrow> error + ('a, 's) generator" where
  "listProjects env this targetUrl options =
     (case getIntegration this targetUrl of
        Inl e \<Rightarrow> Inl e
      | Inr integration \<Rightarrow>
          (case parseGroupUrl env targetUrl (baseUrl (config integration)) of
             Inl e \<Rightarrow> Inl e
           | Inr groupFullPath \<Rightarrow>
               (case group_of groupFullPath of
                  Some g \<Rightarrow>
                    (let endpoint = apiBaseUrl (config integration) @ ''/groups/''
                                      @ encodeURIComponent g @ ''/projects''
                     in Inr ((\<lambda>opt. pagedRequest env this endpoint (Some opt)),
                             [(''per_page'', JNum (Num 100)), (''include_subgroups'', JBool True)]
                               @ spread_last_activity_after options))
                | None \<Rightarrow>
                    Inr ((\<lambda>opt. pagedRequest env this ''/projects'' (Some opt)),
                         [(''per_page'', JNum (Num 100))] @ spread_last_activity_after options))))"

definition listGroups ::
  "('o, 'a, 's) env \<Rightarrow> GitLabClient \<Rightarrow> string \<Rightarrow> error + ('a, 's) generator" where
  "listGroups env this targetUrl =
     (case getIntegration this targetUrl of
        Inl e \<Rightarrow> Inl e
      | Inr integration \<Rightarrow>
          Inr ((\<lambda>options. pagedRequest env this (apiBaseUrl (config integration) @ ''/groups'')
                           (Some options)),
               [(''per_page'', JNum (Num 100))]))"

text \<open>\<^verbatim>\<open>options?.inherited ?? true\<close>\<close>

definition inherited_or_true :: "UsersOptions option \<Rightarrow> bool" where
  "inherited_or_true options =
     (case options of
        None \<Rightarrow> True
      | Some opts \<Rightarrow> (case inherited opts of None \<Rightarrow> True | Some b \<Rightarrow> b))"

text \<open>\<^verbatim>\<open>...(options?.blocked && { blocked: true })\<close>\<close>

definition spread_blocked :: "UsersOptions option \<Rightarrow> ListOptions" where
  "spread_blocked options =
     (case options of
        None \<Rightarrow> []
      | Some opts \<Rightarrow>
          (case blocked opts of
             None \<Rightarrow> []
           | Some b \<Rightarrow> if b then [(''blocked'', JBool True)] else []))"

definition unsupported_operation :: error where
  "unsupported_operation =
     Error ''Getting all GitLab instance users is only supported for self-managed hosts.''"

definition listUsers ::
  "('o, 'a, 's) env \<Rightarrow> GitLabClient \<Rightarrow> string \<Rightarrow> UsersOptions option
     \<Rightarrow> error + ('a, 's) generator" where
  "listUsers env this targetUrl options =
     (case getIntegration this targetUrl of
        Inl e \<Rightarrow> Inl e
      | Inr integration \<Rightarrow>
          (case parseGroupUrl env targetUrl (baseUrl (config integration)) of
             Inl e \<Rightarrow> Inl e
           | Inr groupFullPath \<Rightarrow>
               (case group_of groupFullPath of
                  Some g \<Rightarrow>
                    (let inherited = inherited_or_true options;
                         endpoint = ''/groups/'' @ encodeURIComponent g @ ''/members''
                                      @ (if inherited then ''/all'' else [])
                     in Inr ((\<lambda>opts. pagedRequest env this endpoint (Some opts)),
                             [(''per_page'', JNum (Num 100))] @ spread_blocked options))
                | None \<Rightarrow>
                    if host (config integration) \<noteq> ''gitlab.com'' then Inl unsupported_operation
                    else Inr ((\<lambda>opts. pagedRequest env this ''/users'' (Some opts)),
                              [(''active'', JBool True), (''per_page'', JNum (Num 100))]))))"

section \<open>Reading a query string\<close>

text \<open>The options that \<^verbatim>\<open>if (options[key])\<close> lets through, and the pairs of
  names and values that a query string holds: the text after the question mark,
  cut at each \<^verbatim>\<open>&\<close>, each piece cut at its first \<^verbatim>\<open>=\<close>.\<close>

definition truthy_options :: "ListOptions \<Rightarrow> ListOptions" where
  "truthy_options options = filter (\<lambda>kv. truthy (snd kv)) options"

fun split_amp :: "string \<Rightarrow> string list" where
  "split_amp [] = [[]]"
| "split_amp (c # cs) =
     (if c = CHR ''&'' then [] # split_amp cs
      else (case split_amp cs of [] \<Rightarrow> [[c]] | p # ps \<Rightarrow> (c # p) # ps))"

definition name_value :: "string \<Rightarrow> string \<times> string" where
  "name_value p =
     (takeWhile (\<lambda>c. c \<noteq> CHR ''='') p, drop 1 (dropWhile (\<lambda>c. c \<noteq> CHR ''='') p))"

definition query_pairs :: "string \<Rightarrow> (string \<times> string) list" where
  "query_pairs q = (if q = [] then [] else map name_value (split_amp (tl q)))"

section \<open>Reading a walk\<close>

text \<open>The items a walk yielded, the options of its fetches and what the fetches
  returned, each in order.\<close>

fun yielded :: "'a event list \<Rightarrow> 'a list" where
  "yielded [] = []"
| "yielded (Yield x # es) = x # yielded es"
| "yielded (Fetch opts r # es) = yielded es"

fun fetched :: "'a event list \<Rightarrow> ListOptions list" where
  "fetched [] = []"
| "fetched (Yield x # es) = fetched es"
| "fetched (Fetch opts r # es) = opts # fetched es"

fun responses :: "'a event list \<Rightarrow> (error + 'a PagedResponse) list" where
  "responses [] = []"
| "responses (Yield x # es) = responses es"
| "responses (Fetch opts r # es) = r # responses es"

text \<open>A response reports no next page when the field is missing or
  \<^verbatim>\<open>null\<close>.\<close>

definition absent :: "jsval \<Rightarrow> bool" where
  "absent v = (v = JUndefined \<or> v = JNull)"

text \<open>Pages numbered from \<open>k\<close>: each page but the last reports the number of
  the page after it, the last reports none.\<close>

fun numbered :: "nat \<Rightarrow> 'a PagedResponse list \<Rightarrow> bool" where
  "numbered k [] = False"
| "numbered k [p] = absent (nextPage p)"
| "numbered k (p # q # ps) = (nextPage p = JNum (Num (int k + 1)) \<and> numbered (Suc k) (q # ps))"

text \<open>A fetch function serves a sequence of pages from given options and a given
  state: asked with the options, it returns the first page, and asked then with
  the cursor that page reports, it serves the rest. Both a function that looks
  the page up by \<^verbatim>\<open>options.page\<close> and one that hands out its pages call
  by call are of this kind.\<close>

fun serves :: "('a, 's) page_request \<Rightarrow> ListOptions \<Rightarrow> 's \<Rightarrow> 'a PagedResponse list \<Rightarrow> bool" where
  "serves fetchPage options s [] = True"
| "serves fetchPage options s (p # ps) =
     (case fetchPage options s of
        (Inl e, s') \<Rightarrow> False
      | (Inr res, s') \<Rightarrow> res = p \<and> serves fetchPage (set_page (nextPage p) options) s' ps)"

text \<open>A server of two pages, which finds the page by the cursor.\<close>

definition two_pages :: "(nat, unit) page_request" where
  "two_pages options s =
     (case map_of options ''page'' of
        None \<Rightarrow> (Inr \<lparr>items = [1, 2], nextPage = JNum (Num 2)\<rparr>, ())
      | Some v \<Rightarrow>
          if v = JNum (Num 2) then (Inr \<lparr>items = [3], nextPage = JNull\<rparr>, ())
          else (Inl (FetchError ''no such page''), ()))"

text \<open>A server whose second page cannot be fetched.\<close>

definition second_page_down :: "(nat, unit) page_request" where
  "second_page_down options s =
     (case map_of options ''page'' of
        None \<Rightarrow> (Inr \<lparr>items = [1, 2], nextPage = JNum (Num 2)\<rparr>, ())
      | Some v \<Rightarrow> (Inl (FetchError ''socket hang up''), ()))"

text \<open>The page cursor of a request, \<^verbatim>\<open>options.page\<close>; what a response does
  to the options (\<^verbatim>\<open>options.page = res.nextPage\<close>, which a failed fetch does
  not reach); the next page a response reports; and whether the loop goes on
  after it (\<^verbatim>\<open>while (res.nextPage)\<close>).\<close>

definition cursor :: "ListOptions \<Rightarrow> jsval option" where
  "cursor options = map_of options ''page''"

fun advance :: "ListOptions \<Rightarrow> error + 'a PagedResponse \<Rightarrow> ListOptions" where
  "advance options (Inr res) = set_page (nextPage res) options"
| "advance options (Inl e) = options"

fun reported :: "error + 'a PagedResponse \<Rightarrow> jsval option" where
  "reported (Inr res) = Some (nextPage res)"
| "reported (Inl e) = None"

fun continues :: "error + 'a PagedResponse \<Rightarrow> bool" where
  "continues (Inr res) = truthy (nextPage res)"
| "continues (Inl e) = False"

text \<open>A server that counts its calls and reports page 2 as the next page twice
  before it reports none.\<close>

definition stuck_server :: "(nat, nat) page_request" where
  "stuck_server options calls =
     (if calls < 2 then (Inr \<lparr>items = [calls], nextPage = JNum (Num 2)\<rparr>, Suc calls)
      else (Inr \<lparr>items = [calls], nextPage = JNull\<rparr>, Suc calls))"

section \<open>An environment for the examples\<close>

text \<open>The examples run the client in a small world. \<open>Number_digits\<close> stands for
  \<^verbatim>\<open>Number\<close> on the header values the examples use: a run of decimal digits
  is the integer it writes, and text such as \<^verbatim>\<open>abc\<close> is \<^verbatim>\<open>NaN\<close>. It is
  not \<^verbatim>\<open>Number\<close> on signs, blanks, fractions, exponents or other radices,
  and no example applies it to them.\<close>

definition is_digit :: "char \<Rightarrow> bool" where
  "is_digit c = (let n = (of_char c :: nat) in 48 \<le> n \<and> n \<le> 57)"

definition Number_digits :: "string \<Rightarrow> jsnum" where
  "Number_digits h =
     (if h \<noteq> [] \<and> list_all is_digit h
      then Num (int (foldl (\<lambda>n c. 10 * n + (of_char c - 48)) 0 h))
      else NaN)"

text \<open>A stand-in for \<^verbatim>\<open>parseGroupUrl\<close>: the group is what follows the base
  URL.\<close>

definition group_after_base :: "string \<Rightarrow> string \<Rightarrow> error + string option" where
  "group_after_base url base =
     (if url = base \<or> url = base @ ''/'' then Inr None
      else if take (length base + 1) url = base @ ''/''
      then Inr (Some (drop (length base + 1) url))
      else Inl (Error ''the URL is not under the base URL''))"

text \<open>A transport that answers every request with one response and keeps the
  list of the URLs requested; the URLs of the examples are ones that the URL
  parser leaves as they are.\<close>

definition answering :: "'a Response \<Rightarrow> (unit, 'a, string list) env" where
  "answering response =
     \<lparr>Number = Number_digits,
      new_URL = Inr,
      fetch = (\<lambda>url init log. (Inr response, log @ [url])),
      getGitLabRequestOptions = (\<lambda>cfg. ()),
      merge = (\<lambda>defaults init. defaults),
      parseGroupUrl = group_after_base\<rparr>"

definition page_response :: "nat \<Rightarrow> string option \<Rightarrow> nat Response" where
  "page_response code next =
     \<lparr>status = code, statusText = (if code = 404 then ''Not Found'' else ''OK''),
      headers_get = (\<lambda>name. if name = ''x-next-page'' then next else None),
      json = Inr [7, 8]\<rparr>"

definition gitlab_com :: GitLabIntegration where
  "gitlab_com =
     \<lparr>config = \<lparr>host = ''gitlab.com'', apiBaseUrl = ''https://gitlab.com/api/v4'',
                baseUrl = ''https://gitlab.com''\<rparr>\<rparr>"

definition self_managed :: GitLabIntegration where
  "self_managed =
     \<lparr>config = \<lparr>host = ''git.example.org'', apiBaseUrl = ''https://git.example.org/api/v4'',
                baseUrl = ''https://git.example.org''\<rparr>\<rparr>"

definition two_integrations :: "string \<Rightarrow> GitLabIntegration option" where
  "two_integrations url =
     (if take 18 url = ''https://gitlab.com'' then Some gitlab_com
      else if take 23 url = ''https://git.example.org'' then Some self_managed
      else None)"

text \<open>A client on which \<^verbatim>\<open>config\<close> and \<^verbatim>\<open>logger\<close> have been set, which
  the constructor does not do.\<close>

definition configured_client :: GitLabClient where
  "configured_client =
     \<lparr>byUrl = two_integrations, this_config = Some (config gitlab_com), this_logger = Some ()\<rparr>"

section \<open>Lemmas\<close>

lemma yielded_append [simp]: "yielded (xs @ ys) = yielded xs @ yielded ys"
  by (induction xs rule: yielded.induct) auto

lemma fetched_append [simp]: "fetched (xs @ ys) = fetched xs @ fetched ys"
  by (induction xs rule: fetched.induct) auto

lemma responses_append [simp]: "responses (xs @ ys) = responses xs @ responses ys"
  by (induction xs rule: responses.induct) auto

lemma yielded_map_Yield [simp]: "yielded (map Yield xs) = xs"
  by (induction xs) auto

lemma fetched_map_Yield [simp]: "fetched (map Yield xs) = []"
  by (induction xs) auto

lemma responses_map_Yield [simp]: "responses (map Yield xs) = []"
  by (induction xs) auto

lemma absent_falsy: "absent v \<Longrightarrow> \<not> truthy v"
  by (auto simp: absent_def)

lemma cursor_set_page [simp]: "cursor (set_page v options) = Some v"
  by (simp add: cursor_def set_page_def update_conv')

lemma map_of_set_page_other: "k \<noteq> ''page'' \<Longrightarrow> map_of (set_page v options) k = map_of options k"
  by (simp add: set_page_def update_conv')

lemma length_fetched_responses: "length (fetched evs) = length (responses evs)"
  by (induction evs rule: fetched.induct) auto

text \<open>Each fetch is made with the options the response before it left, and the
  walk leaves the options its last response left.\<close>

lemma paginated_chain:
  "fetched (events (paginated n fetchPage options s)) @ [options_after (paginated n fetchPage options s)]
     = options # map2 advance (fetched (events (paginated n fetchPage options s)))
                              (responses (events (paginated n fetchPage options s)))"
proof (induction n arbitrary: options s)
  case 0
  show ?case by simp
next
  case (Suc n)
  show ?case
  proof (cases "fetchPage options s")
    case (Pair r s')
    show ?thesis
    proof (cases r)
      case (Inl e)
      with Pair show ?thesis by simp
    next
      case (Inr res)
      show ?thesis
        using Suc [of "set_page (nextPage res) options" s'] Pair Inr
        by (simp add: Let_def)
    qed
  qed
qed

lemma paginated_requested_cursors:
  "map cursor (fetched (events (paginated n fetchPage options s)))
     = butlast (cursor options # map reported (responses (events (paginated n fetchPage options s))))"
proof (induction n arbitrary: options s)
  case 0
  show ?case by simp
next
  case (Suc n)
  show ?case
  proof (cases "fetchPage options s")
    case (Pair r s')
    show ?thesis
    proof (cases r)
      case (Inl e)
      with Pair show ?thesis by simp
    next
      case (Inr res)
      show ?thesis
        using Suc [of "set_page (nextPage res) options" s'] Pair Inr
        by (simp add: Let_def)
    qed
  qed
qed

text \<open>Every response but the last lets the loop go on; the last one decides how
  the walk stands.\<close>

lemma paginated_stops:
  "list_all continues (butlast (responses (events (paginated n fetchPage options s))))
   \<and> (case result (paginated n fetchPage options s) of
        Returned \<Rightarrow> responses (events (paginated n fetchPage options s)) \<noteq> []
                    \<and> \<not> continues (last (responses (events (paginated n fetchPage options s))))
                    \<and> reported (last (responses (events (paginated n fetchPage options s)))) \<noteq> None
      | Thrown e \<Rightarrow> responses (events (paginated n fetchPage options s)) \<noteq> []
                    \<and> last (responses (events (paginated n fetchPage options s))) = Inl e
      | Suspended \<Rightarrow> length (responses (events (paginated n fetchPage options s))) = n
                    \<and> list_all continues (responses (events (paginated n fetchPage options s))))"
proof (induction n arbitrary: options s)
  case 0
  show ?case by simp
next
  case (Suc n)
  show ?case
  proof (cases "fetchPage options s")
    case (Pair r s')
    show ?thesis
    proof (cases r)
      case (Inl e)
      with Pair show ?thesis by simp
    next
      case (Inr res)
      show ?thesis
        using Suc [of "set_page (nextPage res) options" s'] Pair Inr
        by (auto simp: Let_def split: outcome.splits)
    qed
  qed
qed

text \<open>A walk that has returned or thrown is the same however much further the
  consumer would have let it go.\<close>

lemma paginated_ended:
  "result (paginated n fetchPage options s) \<noteq> Suspended \<Longrightarrow> n \<le> m \<Longrightarrow>
   paginated m fetchPage options s = paginated n fetchPage options s"
proof (induction n arbitrary: m options s)
  case 0
  then show ?case by simp
next
  case (Suc n)
  from Suc.prems obtain k where m: "m = Suc k" and k: "n \<le> k" by (cases m) auto
  show ?case
  proof (cases "fetchPage options s")
    case (Pair r s')
    show ?thesis
    proof (cases r)
      case (Inl e)
      with Pair show ?thesis by (simp add: m)
    next
      case (Inr res)
      show ?thesis
        using Suc.IH [of "set_page (nextPage res) options" s' k] Suc.prems(1) Pair Inr k
        by (simp add: m Let_def split: if_splits)
    qed
  qed
qed

text \<open>The walk changes no option but the page cursor.\<close>

lemma paginated_keeps_options:
  "opts \<in> set (fetched (events (paginated n fetchPage options s))) \<Longrightarrow> k \<noteq> ''page'' \<Longrightarrow>
   map_of opts k = map_of options k"
proof (induction n arbitrary: options s)
  case 0
  then show ?case by simp
next
  case (Suc n)
  show ?case
  proof (cases "fetchPage options s")
    case (Pair r s')
    show ?thesis
    proof (cases r)
      case (Inl e)
      with Pair Suc.prems show ?thesis by simp
    next
      case (Inr res)
      show ?thesis
        using Suc.IH [of "set_page (nextPage res) options" s'] Suc.prems Pair Inr
        by (auto simp: Let_def map_of_set_page_other split: if_splits)
    qed
  qed
qed

lemma search_append_member:
  "map_of options k = Some v \<Longrightarrow> truthy v \<Longrightarrow> (k, toString v) \<in> set (search_append options)"
  by (induction options rule: search_append.induct) (auto split: if_splits)

subsection \<open>The query string can be read back\<close>

lemma search_append_filter:
  "search_append options = map (\<lambda>kv. (fst kv, toString (snd kv))) (truthy_options options)"
  by (induction options rule: search_append.induct) (auto simp: truthy_options_def)

lemma of_char_hex_digit:
  "d < 16 \<Longrightarrow> (of_char (hex_digit d) :: nat) = (if d < 10 then 48 + d else 55 + d)"
  by (simp add: hex_digit_def)

lemma hex_digit_plain: "d < 16 \<Longrightarrow> hex_digit d \<noteq> CHR ''&'' \<and> hex_digit d \<noteq> CHR ''=''"
proof -
  assume d: "d < 16"
  have a: "(of_char (CHR ''&'') :: nat) = 38" "(of_char (CHR ''='') :: nat) = 61" by simp_all
  from of_char_hex_digit [OF d]
  have "(of_char (hex_digit d) :: nat) \<noteq> 38 \<and> (of_char (hex_digit d) :: nat) \<noteq> 61"
    using d by (auto split: if_splits)
  with a show ?thesis by metis
qed

lemma is_alnum_plain: "is_alnum c \<Longrightarrow> c \<noteq> CHR ''&'' \<and> c \<noteq> CHR ''=''"
  by (auto simp: is_alnum_def Let_def)

lemma form_byte_plain: "x \<in> set (form_byte c) \<Longrightarrow> x \<noteq> CHR ''&'' \<and> x \<noteq> CHR ''=''"
proof -
  have "(of_char c :: nat) < 256" by simp
  then have "(of_char c :: nat) div 16 < 16" "(of_char c :: nat) mod 16 < 16"
    by (simp_all add: less_mult_imp_div_less)
  then show "x \<in> set (form_byte c) \<Longrightarrow> x \<noteq> CHR ''&'' \<and> x \<noteq> CHR ''=''"
    using hex_digit_plain is_alnum_plain
    by (auto simp: form_byte_def percent_byte_def split: if_splits)
qed

lemma form_encode_plain: "x \<in> set (form_encode s) \<Longrightarrow> x \<noteq> CHR ''&'' \<and> x \<noteq> CHR ''=''"
  using form_byte_plain by (auto simp: form_encode_def)

lemma split_amp_none: "CHR ''&'' \<notin> set p \<Longrightarrow> split_amp p = [p]"
  by (induction p) auto

lemma split_amp_append: "CHR ''&'' \<notin> set p \<Longrightarrow> split_amp (p @ CHR ''&'' # q) = p # split_amp q"
  by (induction p) auto

lemma form_pair_no_amp: "CHR ''&'' \<notin> set (form_pair kv)"
  using form_encode_plain by (auto simp: form_pair_def)

lemma split_join_amp: "ps \<noteq> [] \<Longrightarrow> split_amp (join_amp (map form_pair ps)) = map form_pair ps"
proof (induction ps rule: induct_list012)
  case 1
  then show ?case by simp
next
  case (2 x)
  then show ?case by (simp add: split_amp_none form_pair_no_amp)
next
  case (3 x y zs)
  then show ?case by (simp add: split_amp_append form_pair_no_amp)
qed

lemma name_value_form_pair:
  "name_value (form_pair kv) = (form_encode (fst kv), form_encode (snd kv))"
proof -
  have "\<forall>x \<in> set (form_encode (fst kv)). x \<noteq> CHR ''=''" using form_encode_plain by blast
  then show ?thesis
    by (simp add: name_value_def form_pair_def takeWhile_append2 dropWhile_append2
          takeWhile_eq_all_conv dropWhile_append3)
qed

lemma join_amp_empty: "join_amp (map form_pair ps) = [] \<longleftrightarrow> ps = []"
  by (induction ps rule: induct_list012) (auto simp: form_pair_def)

lemma query_pairs_search:
  "query_pairs (listOptionsToQueryString (Some options))
     = map (\<lambda>kv. (form_encode (fst kv), form_encode (snd kv))) (search_append options)"
proof (cases "search_append options = []")
  case True
  then show ?thesis
    by (simp add: listOptionsToQueryString_def URLSearchParams_toString_def query_pairs_def)
next
  case False
  then show ?thesis
    by (simp add: listOptionsToQueryString_def URLSearchParams_toString_def query_pairs_def
        join_amp_empty split_join_amp name_value_form_pair Let_def)
qed

lemma query_pairs_member:
  "map_of options k = Some v \<Longrightarrow> truthy v \<Longrightarrow>
   (form_encode k, form_encode (toString v))
     \<in> set (query_pairs (listOptionsToQueryString (Some options)))"
proof -
  assume "map_of options k = Some v" "truthy v"
  then have "(k, toString v) \<in> set (search_append options)" by (rule search_append_member)
  then show ?thesis by (force simp: query_pairs_search)
qed

lemma form_encode_names:
  "form_encode ''include_subgroups'' = ''include_subgroups''"
  "form_encode ''active'' = ''active''"
  "form_encode ''true'' = ''true''"
  by code_simp+

subsection \<open>What every fetch of a walk is\<close>

lemma fetched_events: "opts \<in> set (fetched evs) \<longleftrightarrow> (\<exists>r. Fetch opts r \<in> set evs)"
  by (induction evs rule: fetched.induct) auto

lemma paginated_fetches_by_request:
  "Fetch opts r \<in> set (events (paginated n fetchPage options s)) \<Longrightarrow>
   \<exists>s1. fst (fetchPage opts s1) = r"
proof (induction n arbitrary: options s)
  case 0
  then show ?case by simp
next
  case (Suc n)
  show ?case
  proof (cases "fetchPage options s")
    case (Pair r' s')
    show ?thesis
    proof (cases r')
      case (Inl e)
      with Pair Suc.prems show ?thesis by (auto intro: exI [of _ s])
    next
      case (Inr res)
      show ?thesis
        using Suc.IH [of "set_page (nextPage res) options" s'] Suc.prems Pair Inr
        by (auto simp: Let_def split: if_splits intro: exI [of _ s])
    qed
  qed
qed

text \<open>An option of the initial options that is truthy and is not the cursor is
  in the options and in the query string of every fetch, and every fetch is a
  call of the request function.\<close>

lemma walk_carries_option:
  assumes "map_of options k = Some v" and "truthy v" and "k \<noteq> ''page''"
    and "Fetch opts r \<in> set (events (paginated n fetchPage options s))"
  shows "(\<exists>s1. fst (fetchPage opts s1) = r) \<and> map_of opts k = Some v
         \<and> (form_encode k, form_encode (toString v))
             \<in> set (query_pairs (listOptionsToQueryString (Some opts)))"
proof -
  from assms(4) have "opts \<in> set (fetched (events (paginated n fetchPage options s)))"
    by (auto simp: fetched_events)
  then have "map_of opts k = Some v"
    using paginated_keeps_options assms(1,3) by metis
  then show ?thesis
    using paginated_fetches_by_request [OF assms(4)] query_pairs_member assms(2) by blast
qed

subsection \<open>The client as its constructor leaves it\<close>

text \<open>The constructor sets neither \<^verbatim>\<open>config\<close> nor \<^verbatim>\<open>logger\<close>, so on a
  client that is used as constructed \<^verbatim>\<open>request\<close> fails where it reads
  \<^verbatim>\<open>this.config.apiBaseUrl\<close>, before it reaches the transport, and
  \<^verbatim>\<open>pagedRequest\<close> fails with it.\<close>

lemma request_after_construction:
  "request env (new_GitLabClient integrations) endpoint init s
     = (Inl (undefined_read ''apiBaseUrl''), s)"
  by (simp add: request_def new_GitLabClient_def)

lemma pagedRequest_after_construction:
  "pagedRequest env (new_GitLabClient integrations) endpoint options s
     = (Inl (undefined_read ''apiBaseUrl''), s)"
  by (simp add: pagedRequest_def request_after_construction)

subsection \<open>Evaluations for the examples\<close>

lemma decimal_404: "decimal 404 = ''404''"
  by code_simp

lemma query_per_page: "listOptionsToQueryString (Some [(''per_page'', JNum (Num 100))]) = ''?per_page=100''"
  by code_simp

lemma Number_digits_examples: "Number_digits ''2'' = Num 2" "Number_digits ''abc'' = NaN"
  by code_simp+

lemma encodeURIComponent_example: "encodeURIComponent ''my-group/sub'' = ''my-group%2Fsub''"
  by code_simp

lemma request_of_example:
  "200 \<le> code \<Longrightarrow> code < 300 \<Longrightarrow>
   request (answering (page_response code next)) configured_client ''/projects?per_page=100'' None []
     = (Inr (page_response code next), [''https://gitlab.com/api/v4/projects?per_page=100''])"
  by (simp add: request_def configured_client_def gitlab_com_def answering_def page_response_def ok_def)

lemma users_query: "listOptionsToQueryString (Some [(''active'', JBool True), (''per_page'', JNum (Num 100))])
   = ''?active=true&per_page=100''"
  by code_simp

lemma users_walk:
  "consume 1 ((\<lambda>opts. pagedRequest (answering (page_response 200 None)) configured_client ''/users'' (Some opts)),
              [(''active'', JBool True), (''per_page'', JNum (Num 100))]) []
   = \<lparr>events = [Fetch [(''active'', JBool True), (''per_page'', JNum (Num 100))]
                  (Inr \<lparr>items = [7, 8], nextPage = JNull\<rparr>), Yield 7, Yield 8],
      result = Returned,
      options_after = [(''active'', JBool True), (''per_page'', JNum (Num 100)), (''page'', JNull)],
      state_after = [''https://gitlab.com/api/v4/users?active=true&per_page=100'']\<rparr>"
proof -
  have r: "request (answering (page_response 200 None)) configured_client
             ''/users?active=true&per_page=100'' None []
           = (Inr (page_response 200 None), [''https://gitlab.com/api/v4/users?active=true&per_page=100''])"
    by (simp add: request_def configured_client_def gitlab_com_def answering_def page_response_def ok_def)
  have p: "pagedRequest (answering (page_response 200 None)) configured_client ''/users''
             (Some [(''active'', JBool True), (''per_page'', JNum (Num 100))]) []
           = (Inr \<lparr>items = [7, 8], nextPage = JNull\<rparr>,
              [''https://gitlab.com/api/v4/users?active=true&per_page=100''])"
    unfolding pagedRequest_def users_query
    by (simp add: r) (simp add: page_response_def paged_response_def)
  show ?thesis
    by (simp add: consume_def p set_page_def)
qed


lemma query_of_spec_example:
  "listOptionsToQueryString
     (Some [(''per_page'', JNum (Num 100)), (''page'', JUndefined), (''blocked'', JBool False)])
   = ''?per_page=100''"
  by code_simp

subsection \<open>What \<^verbatim>\<open>listProjects\<close> hands to \<^verbatim>\<open>pagedRequest\<close>\<close>

text \<open>For a target URL that resolves to an integration, \<^verbatim>\<open>listProjects\<close>
  returns a generator whose fetches are calls of \<^verbatim>\<open>pagedRequest\<close>: with
  the projects endpoint of the group and \<^verbatim>\<open>include_subgroups=true\<close> in the
  options and in the query string when the URL names a group, with
  \<^verbatim>\<open>/projects\<close> when it names none. This is about the arguments only, not
  about what \<^verbatim>\<open>pagedRequest\<close> does with them.\<close>

lemma listProjects_hands_over:
  "getIntegration this targetUrl = Inr integration \<Longrightarrow>
   parseGroupUrl env targetUrl (baseUrl (config integration)) = Inr g \<Longrightarrow>
   (\<forall>path. group_of g = Some path \<longrightarrow>
      (\<exists>gen. listProjects env this targetUrl options = Inr gen
         \<and> fst gen = (\<lambda>opt. pagedRequest env this
                        (apiBaseUrl (config integration) @ ''/groups/'' @ encodeURIComponent path
                           @ ''/projects'') (Some opt))
         \<and> map_of (snd gen) ''include_subgroups'' = Some (JBool True)
         \<and> (\<forall>n s opts r. Fetch opts r \<in> set (events (consume n gen s)) \<longrightarrow>
               (\<exists>s1. fst (pagedRequest env this
                        (apiBaseUrl (config integration) @ ''/groups/'' @ encodeURIComponent path
                           @ ''/projects'') (Some opts) s1) = r)
               \<and> map_of opts ''include_subgroups'' = Some (JBool True)
               \<and> (''include_subgroups'', ''true'')
                    \<in> set (query_pairs (listOptionsToQueryString (Some opts))))))
   \<and> (group_of g = None \<longrightarrow>
      (\<exists>gen. listProjects env this targetUrl options = Inr gen
         \<and> fst gen = (\<lambda>opt. pagedRequest env this ''/projects'' (Some opt))
         \<and> map_of (snd gen) ''include_subgroups'' = None
         \<and> (\<forall>n s opts r. Fetch opts r \<in> set (events (consume n gen s)) \<longrightarrow>
               (\<exists>s1. fst (pagedRequest env this ''/projects'' (Some opts) s1) = r))))"
proof -
  assume i: "getIntegration this targetUrl = Inr integration"
    and g: "parseGroupUrl env targetUrl (baseUrl (config integration)) = Inr g"
  have a: "map_of ([(''per_page'', JNum (Num 100)), (''include_subgroups'', JBool True)]
                @ spread_last_activity_after options) ''include_subgroups'' = Some (JBool True)"
    by simp
  have b: "map_of ([(''per_page'', JNum (Num 100))] @ spread_last_activity_after options)
             ''include_subgroups'' = None"
    by (simp add: spread_last_activity_after_def split: option.splits)
  show ?thesis
  proof (cases "group_of g")
    case None
    let ?request = "\<lambda>opt. pagedRequest env this ''/projects'' (Some opt)"
    let ?initial = "[(''per_page'', JNum (Num 100))] @ spread_last_activity_after options"
    have l: "listProjects env this targetUrl options = Inr (?request, ?initial)"
      using i g None by (simp add: listProjects_def)
    have "\<exists>s1. fst (?request opts s1) = r"
      if "Fetch opts r \<in> set (events (consume n (?request, ?initial) s))" for n s opts r
      using that paginated_fetches_by_request [of opts r n ?request ?initial s]
      by (simp only: consume_def fst_conv snd_conv)
    with l b None show ?thesis
      by (intro conjI impI allI exI [of _ "(?request, ?initial)"])
         (simp_all only: fst_conv snd_conv option.distinct)
  next
    case (Some path)
    let ?endpoint = "apiBaseUrl (config integration) @ ''/groups/'' @ encodeURIComponent path
                       @ ''/projects''"
    let ?request = "\<lambda>opt. pagedRequest env this ?endpoint (Some opt)"
    let ?initial = "[(''per_page'', JNum (Num 100)), (''include_subgroups'', JBool True)]
                      @ spread_last_activity_after options"
    have l: "listProjects env this targetUrl options = Inr (?request, ?initial)"
      using i g Some by (simp add: listProjects_def)
    have t: "truthy (JBool True)" "''include_subgroups'' \<noteq> ''page''" by simp_all
    have w: "(\<exists>s1. fst (?request opts s1) = r)
             \<and> map_of opts ''include_subgroups'' = Some (JBool True)
             \<and> (''include_subgroups'', ''true'')
                  \<in> set (query_pairs (listOptionsToQueryString (Some opts)))"
      if "Fetch opts r \<in> set (events (consume n (?request, ?initial) s))" for n s opts r
      using walk_carries_option [OF a t, of opts r n ?request s] that
      by (simp only: consume_def fst_conv snd_conv form_encode_names toString.simps if_True)
    from l a w Some show ?thesis
      by (intro conjI impI allI exI [of _ "(?request, ?initial)"])
         (simp_all only: fst_conv snd_conv option.inject option.distinct)
  qed
qed

lemma projects_query:
  "listOptionsToQueryString
     (Some [(''per_page'', JNum (Num 100)), (''include_subgroups'', JBool True)])
   = ''?per_page=100&include_subgroups=true''"
  by code_simp

section \<open>The claims\<close>

text \<open>
  C1. Let the pages be numbered from 1 (\<open>k = 1\<close>; any other start does as
  well), each page but the last reporting the number of the next and the last
  reporting none, and let the fetch function serve them, from any initial
  options. Then the walk, given room for all the
  pages, yields the items of the pages one after the other, calls the fetch
  function once per page, and returns. For a single page it fetches once and
  yields that page's items.
\<close>

theorem paginated_yields_all_pages:
  "numbered k pages \<Longrightarrow> serves fetchPage options s pages \<Longrightarrow> length pages \<le> n \<Longrightarrow>
     yielded (events (paginated n fetchPage options s)) = concat (map items pages)
     \<and> length (fetched (events (paginated n fetchPage options s))) = length pages
     \<and> result (paginated n fetchPage options s) = Returned"
proof (induction k pages arbitrary: options s n rule: numbered.induct)
  case (1 k)
  then show ?case by simp
next
  case (2 k p)
  then obtain s' where r: "fetchPage options s = (Inr p, s')"
    by (auto split: prod.splits sum.splits)
  from 2 obtain m where n: "n = Suc m" by (cases n) auto
  from 2 have "\<not> truthy (nextPage p)" by (simp add: absent_falsy)
  with r show ?case
    by (simp add: n)
next
  case (3 k p q ps)
  then obtain s' where r: "fetchPage options s = (Inr p, s')"
    and sv: "serves fetchPage (set_page (nextPage p) options) s' (q # ps)"
    by (auto split: prod.splits sum.splits)
  from 3 obtain m where n: "n = Suc m" and m: "length (q # ps) \<le> m" by (cases n) auto
  from 3 have np: "nextPage p = JNum (Num (int k + 1))" and nb: "numbered (Suc k) (q # ps)"
    by auto
  note ih = 3(1)[OF nb sv m]
  have t: "truthy (nextPage p)" using np by simp
  show ?case
    using ih by (simp add: n r t Let_def del: serves.simps numbered.simps)
qed

theorem paginated_yields_all_pages_witness:
  "yielded (events (paginated 5 two_pages [(''per_page'', JNum (Num 100))] ())) = [1, 2, 3]
     \<and> length (fetched (events (paginated 5 two_pages [(''per_page'', JNum (Num 100))] ()))) = 2
     \<and> result (paginated 5 two_pages [(''per_page'', JNum (Num 100))] ()) = Returned"
  using paginated_yields_all_pages
    [of 1 "[\<lparr>items = [1, 2], nextPage = JNum (Num 2)\<rparr>, \<lparr>items = [3], nextPage = JNull\<rparr>]"
        two_pages "[(''per_page'', JNum (Num 100))]" "()" 5]
  by (simp add: two_pages_def set_page_def absent_def)

text \<open>
  C2. When the first fetch succeeds and reports a next page, and the fetch of
  that page fails, the walk is: the first fetch, the items of page 1 in order,
  the second fetch, and then the failure itself, thrown to the consumer. There
  are two fetches, and no event follows the failure.
\<close>

theorem paginated_failure_on_second_page:
  "fetchPage options s = (Inr res, s1) \<Longrightarrow> truthy (nextPage res) \<Longrightarrow>
   fetchPage (set_page (nextPage res) options) s1 = (Inl e, s2) \<Longrightarrow> 2 \<le> n \<Longrightarrow>
   paginated n fetchPage options s =
     \<lparr>events = Fetch options (Inr res) # map Yield (items res)
                 @ [Fetch (set_page (nextPage res) options) (Inl e)],
      result = Thrown e,
      options_after = set_page (nextPage res) options,
      state_after = s2\<rparr>"
proof -
  assume a: "fetchPage options s = (Inr res, s1)" "truthy (nextPage res)"
    "fetchPage (set_page (nextPage res) options) s1 = (Inl e, s2)" "2 \<le> n"
  then obtain m where n: "n = Suc (Suc m)"
    by (metis Suc_le_D numeral_2_eq_2 Suc_le_mono)
  show ?thesis using a by (simp add: n Let_def)
qed

theorem paginated_failure_on_second_page_witness:
  "paginated 4 second_page_down [(''per_page'', JNum (Num 100))] () =
     \<lparr>events = [Fetch [(''per_page'', JNum (Num 100))]
                  (Inr \<lparr>items = [1, 2], nextPage = JNum (Num 2)\<rparr>),
                Yield 1, Yield 2,
                Fetch [(''per_page'', JNum (Num 100)), (''page'', JNum (Num 2))]
                  (Inl (FetchError ''socket hang up''))],
      result = Thrown (FetchError ''socket hang up''),
      options_after = [(''per_page'', JNum (Num 100)), (''page'', JNum (Num 2))],
      state_after = ()\<rparr>"
  using paginated_failure_on_second_page
    [of second_page_down "[(''per_page'', JNum (Num 100))]" "()"
        "\<lparr>items = [1, 2], nextPage = JNum (Num 2)\<rparr>" "()" "FetchError ''socket hang up''" "()" 4]
  by (simp add: second_page_down_def set_page_def)

text \<open>
  C3. \<^verbatim>\<open>listOptionsToQueryString\<close> gives the empty string for no options
  and for options none of which is truthy, and otherwise a string that begins
  with a question mark. Read back, the string holds one pair for each option
  whose value is truthy, in the order of the options, and nothing else: the
  encoded key and the encoded text of the value. A missing value, 0,
  \<^verbatim>\<open>false\<close> and the empty string are not truthy. The options
  \<^verbatim>\<open>{per_page: 100, page: undefined, blocked: false}\<close> give
  \<^verbatim>\<open>?per_page=100\<close>.
\<close>

theorem query_string_of_truthy_options:
  "listOptionsToQueryString None = []
   \<and> (listOptionsToQueryString (Some options) = [] \<longleftrightarrow> truthy_options options = [])
   \<and> (truthy_options options \<noteq> [] \<longrightarrow> hd (listOptionsToQueryString (Some options)) = CHR ''?'')
   \<and> query_pairs (listOptionsToQueryString (Some options))
        = map (\<lambda>kv. (form_encode (fst kv), form_encode (toString (snd kv)))) (truthy_options options)
   \<and> \<not> truthy JUndefined \<and> \<not> truthy (JNum (Num 0)) \<and> \<not> truthy (JBool False) \<and> \<not> truthy (JStr [])
   \<and> listOptionsToQueryString
        (Some [(''per_page'', JNum (Num 100)), (''page'', JUndefined), (''blocked'', JBool False)])
      = ''?per_page=100''"
proof -
  have e: "search_append options = [] \<longleftrightarrow> truthy_options options = []"
    by (simp add: search_append_filter)
  have q: "query_pairs (listOptionsToQueryString (Some options))
        = map (\<lambda>kv. (form_encode (fst kv), form_encode (toString (snd kv)))) (truthy_options options)"
    by (simp add: query_pairs_search search_append_filter comp_def)
  have l: "listOptionsToQueryString None = []
   \<and> (listOptionsToQueryString (Some options) = [] \<longleftrightarrow> truthy_options options = [])
   \<and> (truthy_options options \<noteq> [] \<longrightarrow> hd (listOptionsToQueryString (Some options)) = CHR ''?'')"
    using e
    by (simp add: listOptionsToQueryString_def URLSearchParams_toString_def join_amp_empty Let_def)
  show ?thesis
    using l q query_of_spec_example by simp
qed

theorem query_string_of_truthy_options_witness:
  "truthy_options [(''page'', JNum (Num 0)), (''search'', JStr ''a b''), (''blocked'', JBool False),
                   (''per_page'', JNum (Num 100)), (''owned'', JUndefined)]
     = [(''search'', JStr ''a b''), (''per_page'', JNum (Num 100))]
   \<and> listOptionsToQueryString
        (Some [(''page'', JNum (Num 0)), (''search'', JStr ''a b''), (''blocked'', JBool False),
               (''per_page'', JNum (Num 100)), (''owned'', JUndefined)])
      = ''?search=a+b&per_page=100''
   \<and> query_pairs ''?search=a+b&per_page=100'' = [(''search'', ''a+b''), (''per_page'', ''100'')]"
proof -
  have s: "listOptionsToQueryString
        (Some [(''page'', JNum (Num 0)), (''search'', JStr ''a b''), (''blocked'', JBool False),
               (''per_page'', JNum (Num 100)), (''owned'', JUndefined)])
      = ''?search=a+b&per_page=100''"
    by code_simp
  have t: "truthy_options [(''page'', JNum (Num 0)), (''search'', JStr ''a b''), (''blocked'', JBool False),
                   (''per_page'', JNum (Num 100)), (''owned'', JUndefined)]
     = [(''search'', JStr ''a b''), (''per_page'', JNum (Num 100))]"
    by (simp add: truthy_options_def)
  have f: "form_encode ''search'' = ''search''" "form_encode ''a b'' = ''a+b''"
    "form_encode ''per_page'' = ''per_page''" "form_encode (int_toString 100) = ''100''"
    by code_simp+
  show ?thesis
    using query_string_of_truthy_options
      [of "[(''page'', JNum (Num 0)), (''search'', JStr ''a b''), (''blocked'', JBool False),
            (''per_page'', JNum (Num 100)), (''owned'', JUndefined)]"]
    by (simp only: s t f list.map fst_conv snd_conv toString.simps simp_thms)
qed

text \<open>
  C4, as the claim states it, fails: for a header that is not a number, such as
  \<^verbatim>\<open>abc\<close>, the next-page value of the result is \<^verbatim>\<open>NaN\<close>, which is a number
  and not an absent value.
\<close>

theorem next_page_of_text_counterexample:
  "pagedRequest (answering (page_response 200 (Some ''abc''))) configured_client ''/projects''
     (Some [(''per_page'', JNum (Num 100))]) []
   = (Inr \<lparr>items = [7, 8], nextPage = JNum NaN\<rparr>,
      [''https://gitlab.com/api/v4/projects?per_page=100''])
   \<and> \<not> absent (JNum NaN)"
proof -
  have r: "request (answering (page_response 200 (Some ''abc''))) configured_client
             (''/projects'' @ listOptionsToQueryString (Some [(''per_page'', JNum (Num 100))])) None []
           = (Inr (page_response 200 (Some ''abc'')),
              [''https://gitlab.com/api/v4/projects?per_page=100''])"
    by (simp add: query_per_page request_of_example)
  have e: "Number (answering (page_response 200 (Some ''abc''))) = Number_digits"
    by (simp add: answering_def)
  have p: "paged_response Number_digits (page_response 200 (Some ''abc'')) [7, 8]
             = \<lparr>items = [7, 8], nextPage = JNum NaN\<rparr>"
    by (simp add: paged_response_def page_response_def Number_digits_examples)
  have j: "json (page_response 200 (Some ''abc'')) = Inr [7, 8]"
    by (simp add: page_response_def)
  show ?thesis
    by (simp add: pagedRequest_def r e p j absent_def del: append.simps)
qed

text \<open>
  C4, amended. Whenever \<^verbatim>\<open>request\<close> gives \<^verbatim>\<open>pagedRequest\<close> a response whose
  body decodes, the result holds the decoded body as its items, and its
  next-page value is \<^verbatim>\<open>null\<close> when the header \<^verbatim>\<open>x-next-page\<close> is missing or
  empty, and \<^verbatim>\<open>Number\<close> of the header otherwise. In the latter case the value
  is never absent: for a header that is not a number it is \<^verbatim>\<open>NaN\<close>, which is
  falsy like 0, so that a walk ends there all the same.
\<close>

theorem pagedRequest_decodes:
  "request env this (endpoint @ listOptionsToQueryString options) None s = (Inr response, s') \<Longrightarrow>
   json response = Inr its \<Longrightarrow>
   (\<exists>res. pagedRequest env this endpoint options s = (Inr res, s')
      \<and> items res = its
      \<and> (case headers_get response ''x-next-page'' of
            None \<Rightarrow> nextPage res = JNull
          | Some h \<Rightarrow>
              if h = [] then nextPage res = JNull
              else nextPage res = JNum (Number env h)
                   \<and> \<not> absent (nextPage res)
                   \<and> (truthy (nextPage res) \<longleftrightarrow> Number env h \<noteq> NaN \<and> Number env h \<noteq> Num 0)))"
proof -
  assume r: "request env this (endpoint @ listOptionsToQueryString options) None s = (Inr response, s')"
    and j: "json response = Inr its"
  have p: "pagedRequest env this endpoint options s
             = (Inr (paged_response (Number env) response its), s')"
    using r j by (simp add: pagedRequest_def)
  have t: "truthy (JNum x) \<longleftrightarrow> x \<noteq> NaN \<and> x \<noteq> Num 0" for x
    by (cases x) auto
  show ?thesis
    unfolding p
    by (rule exI [of _ "paged_response (Number env) response its"])
       (simp add: paged_response_def absent_def t split: option.splits)
qed

theorem pagedRequest_decodes_witness:
  "pagedRequest (answering (page_response 200 (Some ''2''))) configured_client ''/projects''
     (Some [(''per_page'', JNum (Num 100))]) []
   = (Inr \<lparr>items = [7, 8], nextPage = JNum (Num 2)\<rparr>,
      [''https://gitlab.com/api/v4/projects?per_page=100''])"
proof -
  have r: "request (answering (page_response 200 (Some ''2''))) configured_client
             (''/projects'' @ listOptionsToQueryString (Some [(''per_page'', JNum (Num 100))])) None []
           = (Inr (page_response 200 (Some ''2'')),
              [''https://gitlab.com/api/v4/projects?per_page=100''])"
    by (simp add: query_per_page request_of_example)
  have j: "json (page_response 200 (Some ''2'')) = Inr [7, 8]"
    by (simp add: page_response_def)
  have h: "headers_get (page_response 200 (Some ''2'')) ''x-next-page'' = Some ''2''"
    by (simp add: page_response_def)
  have e: "Number (answering (page_response 200 (Some ''2''))) = Number_digits"
    by (simp add: answering_def)
  from pagedRequest_decodes [OF r j] show ?thesis
    by (auto simp: h e Number_digits_examples)
qed

text \<open>
  C5. For a target URL that resolves to an integration and names no group,
  \<^verbatim>\<open>listUsers\<close> returns the generator over \<^verbatim>\<open>/users\<close> when the host of the
  integration is \<^verbatim>\<open>gitlab.com\<close>, and raises the unsupported-operation error
  for any other host. \<^verbatim>\<open>listUsers\<close> is no generator itself: it has no access
  to the network state, and a generator it returns has fetched nothing.
\<close>

theorem listUsers_instance_wide:
  "getIntegration this targetUrl = Inr integration \<Longrightarrow>
   parseGroupUrl env targetUrl (baseUrl (config integration)) = Inr g \<Longrightarrow> group_of g = None \<Longrightarrow>
   listUsers env this targetUrl options =
     (if host (config integration) = ''gitlab.com''
      then Inr ((\<lambda>opts. pagedRequest env this ''/users'' (Some opts)),
                [(''active'', JBool True), (''per_page'', JNum (Num 100))])
      else Inl unsupported_operation)"
  by (simp add: listUsers_def)

theorem listUsers_instance_wide_witness:
  "listUsers (answering (page_response 200 None)) (new_GitLabClient two_integrations)
      ''https://gitlab.com'' None
    = Inr ((\<lambda>opts. pagedRequest (answering (page_response 200 None))
                     (new_GitLabClient two_integrations) ''/users'' (Some opts)),
           [(''active'', JBool True), (''per_page'', JNum (Num 100))])
   \<and> listUsers (answering (page_response 200 None)) (new_GitLabClient two_integrations)
      ''https://git.example.org'' None
    = Inl (Error ''Getting all GitLab instance users is only supported for self-managed hosts.'')"
  using listUsers_instance_wide
      [of "new_GitLabClient two_integrations" "''https://gitlab.com''" gitlab_com
          "answering (page_response 200 None)" None None]
    listUsers_instance_wide
      [of "new_GitLabClient two_integrations" "''https://git.example.org''" self_managed
          "answering (page_response 200 None)" None None]
  by (simp add: getIntegration_def new_GitLabClient_def two_integrations_def gitlab_com_def
      self_managed_def answering_def group_after_base_def unsupported_operation_def)

text \<open>
  C6 does not hold of the code. \<^verbatim>\<open>listProjects\<close> picks the endpoint and the
  options the claim names, but its page requests do not go to the projects
  endpoint of the group. On a client as the constructor leaves it, the first
  page request throws where \<^verbatim>\<open>request\<close> reads \<^verbatim>\<open>this.config\<close>, and
  nothing is sent. On a client whose \<^verbatim>\<open>config\<close> is that of the integration,
  the group branch hands \<^verbatim>\<open>pagedRequest\<close> an endpoint that begins with the
  API base URL, \<^verbatim>\<open>request\<close> puts the API base URL before it once more, and
  the transport is asked for a URL that holds the base twice. The branch without
  a group, and \<^verbatim>\<open>listUsers\<close> in both of its branches, hand over an endpoint
  that begins with a slash.
\<close>

theorem listProjects_group_request_astray:
  "(\<exists>gen. listProjects (answering (page_response 200 None)) (new_GitLabClient two_integrations)
             ''https://gitlab.com/my-group/sub'' None = Inr gen
      \<and> consume 1 gen []
          = \<lparr>events = [Fetch [(''per_page'', JNum (Num 100)), (''include_subgroups'', JBool True)]
                         (Inl (undefined_read ''apiBaseUrl''))],
             result = Thrown (undefined_read ''apiBaseUrl''),
             options_after = [(''per_page'', JNum (Num 100)), (''include_subgroups'', JBool True)],
             state_after = []\<rparr>)
   \<and> (\<exists>gen. listProjects (answering (page_response 200 None)) configured_client
             ''https://gitlab.com/my-group/sub'' None = Inr gen
      \<and> state_after (consume 1 gen [])
          = [''https://gitlab.com/api/v4https://gitlab.com/api/v4/groups/my-group%2Fsub/projects?per_page=100&include_subgroups=true''])"
proof -
  let ?env = "answering (page_response 200 None) :: (unit, nat, string list) env"
  let ?initial = "[(''per_page'', JNum (Num 100)), (''include_subgroups'', JBool True)]"
  let ?endpoint = "''https://gitlab.com/api/v4/groups/my-group%2Fsub/projects''"
  have i: "getIntegration (new_GitLabClient two_integrations) ''https://gitlab.com/my-group/sub''
             = Inr gitlab_com"
    "getIntegration configured_client ''https://gitlab.com/my-group/sub'' = Inr gitlab_com"
    by (simp_all add: getIntegration_def new_GitLabClient_def configured_client_def
          two_integrations_def)
  have g: "parseGroupUrl ?env ''https://gitlab.com/my-group/sub'' (baseUrl (config gitlab_com))
             = Inr (Some ''my-group/sub'')"
    by (simp add: answering_def gitlab_com_def group_after_base_def)
  have s: "spread_last_activity_after None = []"
    by (simp add: spread_last_activity_after_def)
  have l: "listProjects ?env this ''https://gitlab.com/my-group/sub'' None
             = Inr ((\<lambda>opt. pagedRequest ?env this ?endpoint (Some opt)), ?initial)"
    if "getIntegration this ''https://gitlab.com/my-group/sub'' = Inr gitlab_com" for this
    by (simp add: listProjects_def that g s)
       (simp add: gitlab_com_def encodeURIComponent_example)
  have a: "consume 1 ((\<lambda>opt. pagedRequest ?env (new_GitLabClient two_integrations) ?endpoint
                               (Some opt)), ?initial) []
          = \<lparr>events = [Fetch ?initial (Inl (undefined_read ''apiBaseUrl''))],
             result = Thrown (undefined_read ''apiBaseUrl''),
             options_after = ?initial, state_after = []\<rparr>"
    by (simp add: consume_def pagedRequest_after_construction)
  have r: "request ?env configured_client
             (?endpoint @ ''?per_page=100&include_subgroups=true'') None []
           = (Inr (page_response 200 None),
              [''https://gitlab.com/api/v4https://gitlab.com/api/v4/groups/my-group%2Fsub/projects?per_page=100&include_subgroups=true''])"
    by (simp add: request_def configured_client_def gitlab_com_def answering_def
          page_response_def ok_def)
  have p: "pagedRequest ?env configured_client ?endpoint (Some ?initial) []
           = (Inr \<lparr>items = [7, 8], nextPage = JNull\<rparr>,
              [''https://gitlab.com/api/v4https://gitlab.com/api/v4/groups/my-group%2Fsub/projects?per_page=100&include_subgroups=true''])"
    unfolding pagedRequest_def projects_query
    by (simp only: Let_def r) (simp add: page_response_def paged_response_def)
  have b: "state_after (consume 1 ((\<lambda>opt. pagedRequest ?env configured_client ?endpoint
                               (Some opt)), ?initial) [])
          = [''https://gitlab.com/api/v4https://gitlab.com/api/v4/groups/my-group%2Fsub/projects?per_page=100&include_subgroups=true'']"
    by (simp add: consume_def p)
  from l [OF i(1)] a l [OF i(2)] b show ?thesis by blast
qed

text \<open>
  C7, as the claim states it, fails: a status other than 200 need not be a
  failure. A response with status 204 is \<^verbatim>\<open>ok\<close>, and \<^verbatim>\<open>request\<close> returns it.
\<close>

theorem request_returns_204_counterexample:
  "status (page_response 204 None) \<noteq> 200
   \<and> request (answering (page_response 204 None)) configured_client
        ''/projects?per_page=100'' None []
      = (Inr (page_response 204 None), [''https://gitlab.com/api/v4/projects?per_page=100''])"
  by (simp add: request_of_example) (simp add: page_response_def)

text \<open>
  C7, amended. On a client whose \<^verbatim>\<open>config\<close> and \<^verbatim>\<open>logger\<close> are set, for every
  endpoint whose URL parses and every response of the transport: when the
  status is from 200 to 299, \<^verbatim>\<open>request\<close> returns the response as it is; for
  any other status it raises an error, and the message of the error holds the
  URL requested, the status and the status text. What \<^verbatim>\<open>request\<close> does on a
  client without \<^verbatim>\<open>config\<close> is not part of this statement.
\<close>

theorem request_checks_status:
  "this_config this = Some cfg \<Longrightarrow> this_logger this = Some l \<Longrightarrow>
   new_URL env (apiBaseUrl cfg @ endpoint) = Inr url \<Longrightarrow>
   fetch env url (merge env (getGitLabRequestOptions env cfg) init) s = (Inr response, s') \<Longrightarrow>
   request env this endpoint init s =
     (if 200 \<le> status response \<and> status response < 300 then (Inr response, s')
      else (Inl (Error (''Unexpected response when fetching '' @ url @ ''. Expected 200 but got ''
                        @ decimal (status response) @ '' - '' @ statusText response)), s'))"
  by (simp add: request_def ok_def unexpected_response_def)

theorem request_checks_status_witness:
  "request (answering (page_response 404 None)) configured_client ''/projects'' None []
     = (Inl (Error ''Unexpected response when fetching https://gitlab.com/api/v4/projects. Expected 200 but got 404 - Not Found''),
        [''https://gitlab.com/api/v4/projects''])
   \<and> request (answering (page_response 200 None)) configured_client ''/projects'' None []
     = (Inr (page_response 200 None), [''https://gitlab.com/api/v4/projects''])"
  using request_checks_status
      [of configured_client "config gitlab_com" "()" "answering (page_response 404 None)"
          "''/projects''" "''https://gitlab.com/api/v4/projects''" None "[]"
          "page_response 404 None" "[''https://gitlab.com/api/v4/projects'']"]
    request_checks_status
      [of configured_client "config gitlab_com" "()" "answering (page_response 200 None)"
          "''/projects''" "''https://gitlab.com/api/v4/projects''" None "[]"
          "page_response 200 None" "[''https://gitlab.com/api/v4/projects'']"]
  by (simp add: configured_client_def gitlab_com_def answering_def page_response_def decimal_404)

text \<open>
  C8, as the claim states it, fails: the engine fetches whatever page the last
  response names, and a server that names page 2 twice has page 2 fetched twice
  in a walk that returns.
\<close>

theorem page_fetched_twice_counterexample:
  "result (paginated 3 stuck_server [] 0) = Returned
   \<and> map cursor (fetched (events (paginated 3 stuck_server [] 0)))
       = [None, Some (JNum (Num 2)), Some (JNum (Num 2))]
   \<and> \<not> distinct (map cursor (fetched (events (paginated 3 stuck_server [] 0))))"
  by (simp add: numeral_3_eq_3 stuck_server_def cursor_def set_page_def Let_def)

text \<open>
  C8, amended. In every walk, however far the consumer advances it: each fetch
  is made with the options that the response before it left, a successful
  response setting \<^verbatim>\<open>page\<close> to the next page it reports and a failed one
  leaving the options alone; the cursors requested are the initial one and then
  the next pages reported, in order; every response but the last reports a
  truthy next page; the walk has returned only after a successful response whose
  next page is falsy, has thrown only the failure of its last fetch, and is
  suspended only after \<open>n\<close> responses that all let it go on. No cursor is
  requested twice when the initial cursor and the reported next pages are
  pairwise distinct; the engine does nothing else to prevent it.
\<close>

theorem pagination_walk_invariant:
  "(let w = paginated n fetchPage options s; fs = fetched (events w); rs = responses (events w) in
     fs @ [options_after w] = options # map2 advance fs rs
   \<and> map cursor fs = butlast (cursor options # map reported rs)
   \<and> list_all continues (butlast rs)
   \<and> (case result w of
        Returned \<Rightarrow> rs \<noteq> [] \<and> \<not> continues (last rs) \<and> reported (last rs) \<noteq> None
      | Thrown e \<Rightarrow> rs \<noteq> [] \<and> last rs = Inl e
      | Suspended \<Rightarrow> length rs = n \<and> list_all continues rs)
   \<and> (distinct (cursor options # map reported rs) \<longrightarrow> distinct (map cursor fs)))"
proof -
  have "distinct (map cursor (fetched (events (paginated n fetchPage options s))))"
    if "distinct (cursor options # map reported (responses (events (paginated n fetchPage options s))))"
    using that distinct_butlast [OF that] by (simp only: paginated_requested_cursors)
  then show ?thesis
    using paginated_chain [of n fetchPage options s]
      paginated_requested_cursors [of n fetchPage options s]
      paginated_stops [of n fetchPage options s]
    by (simp add: Let_def)
qed

theorem pagination_walk_invariant_witness:
  "(let w = paginated 5 two_pages [(''per_page'', JNum (Num 100))] () in
     result w = Returned
   \<and> fetched (events w) = [[(''per_page'', JNum (Num 100))],
                            [(''per_page'', JNum (Num 100)), (''page'', JNum (Num 2))]]
   \<and> options_after w = [(''per_page'', JNum (Num 100)), (''page'', JNull)]
   \<and> distinct (cursor [(''per_page'', JNum (Num 100))] # map reported (responses (events w)))
   \<and> distinct (map cursor (fetched (events w))))"
  using pagination_walk_invariant [of 5 two_pages "[(''per_page'', JNum (Num 100))]" "()"]
  by (simp add: numeral_eq_Suc two_pages_def cursor_def set_page_def Let_def)

text \<open>
  C9. For a target URL that resolves to an integration and names no group,
  every generator that \<^verbatim>\<open>listUsers\<close> returns starts from options with
  \<^verbatim>\<open>active: true\<close> and \<^verbatim>\<open>per_page: 100\<close>, and every page request of its
  walk carries \<^verbatim>\<open>active=true\<close>, in its options and in its query string.
\<close>

theorem listUsers_active_only:
  "getIntegration this targetUrl = Inr integration \<Longrightarrow>
   parseGroupUrl env targetUrl (baseUrl (config integration)) = Inr g \<Longrightarrow> group_of g = None \<Longrightarrow>
   listUsers env this targetUrl options = Inr gen \<Longrightarrow>
   map_of (snd gen) ''active'' = Some (JBool True)
   \<and> map_of (snd gen) ''per_page'' = Some (JNum (Num 100))
   \<and> (\<forall>n s opts r. Fetch opts r \<in> set (events (consume n gen s)) \<longrightarrow>
         map_of opts ''active'' = Some (JBool True)
         \<and> (''active'', ''true'') \<in> set (query_pairs (listOptionsToQueryString (Some opts))))"
proof -
  assume i: "getIntegration this targetUrl = Inr integration"
    and g: "parseGroupUrl env targetUrl (baseUrl (config integration)) = Inr g" "group_of g = None"
    and l: "listUsers env this targetUrl options = Inr gen"
  let ?initial = "[(''active'', JBool True), (''per_page'', JNum (Num 100))]"
  from i g l have s: "snd gen = ?initial"
    by (auto simp: listUsers_def split: if_splits)
  have a: "map_of ?initial ''active'' = Some (JBool True)" by simp
  have t: "truthy (JBool True)" "''active'' \<noteq> ''page''" by simp_all
  have "map_of opts ''active'' = Some (JBool True)
        \<and> (''active'', ''true'') \<in> set (query_pairs (listOptionsToQueryString (Some opts)))"
    if "Fetch opts r \<in> set (events (consume n gen s))" for n s opts r
    using walk_carries_option [OF a t, of opts r n "fst gen" s] that
    by (simp only: consume_def s form_encode_names toString.simps if_True)
  then show ?thesis by (simp add: s)
qed

theorem listUsers_active_only_witness:
  "(let gen = ((\<lambda>opts. pagedRequest (answering (page_response 200 None)) configured_client
                         ''/users'' (Some opts)),
               [(''active'', JBool True), (''per_page'', JNum (Num 100))])
    in listUsers (answering (page_response 200 None)) configured_client ''https://gitlab.com'' None
         = Inr gen
     \<and> map_of (snd gen) ''active'' = Some (JBool True)
     \<and> fetched (events (consume 1 gen []))
         = [[(''active'', JBool True), (''per_page'', JNum (Num 100))]]
     \<and> state_after (consume 1 gen [])
         = [''https://gitlab.com/api/v4/users?active=true&per_page=100''])"
proof -
  let ?env = "answering (page_response 200 None) :: (unit, nat, string list) env"
  let ?gen = "((\<lambda>opts. pagedRequest ?env configured_client ''/users'' (Some opts)),
               [(''active'', JBool True), (''per_page'', JNum (Num 100))])"
  have i: "getIntegration configured_client ''https://gitlab.com'' = Inr gitlab_com"
    by (simp add: getIntegration_def configured_client_def two_integrations_def)
  have g: "parseGroupUrl ?env ''https://gitlab.com'' (baseUrl (config gitlab_com)) = Inr None"
    by (simp add: answering_def gitlab_com_def group_after_base_def)
  have h: "host (config gitlab_com) = ''gitlab.com''"
    by (simp add: gitlab_com_def)
  have l: "listUsers ?env configured_client ''https://gitlab.com'' None = Inr ?gen"
    by (simp add: listUsers_def i g h)
  from listUsers_active_only [OF i g _ l]
  have "map_of (snd ?gen) ''active'' = Some (JBool True)" by simp
  with l show ?thesis
    by (simp only: Let_def users_walk) simp
qed

text \<open>
  C10. For a target URL that resolves to an integration and names a group,
  \<^verbatim>\<open>listUsers\<close> returns a generator over the members endpoint of the group,
  with the suffix \<^verbatim>\<open>/all\<close> when no options are given, when \<^verbatim>\<open>inherited\<close>
  is not given and when it is \<^verbatim>\<open>true\<close>; without the suffix only when
  \<^verbatim>\<open>inherited\<close> is given as \<^verbatim>\<open>false\<close>.
\<close>

theorem listUsers_group_members:
  "getIntegration this targetUrl = Inr integration \<Longrightarrow>
   parseGroupUrl env targetUrl (baseUrl (config integration)) = Inr g \<Longrightarrow> group_of g = Some path \<Longrightarrow>
   listUsers env this targetUrl options =
     Inr ((\<lambda>opts. pagedRequest env this
             (''/groups/'' @ encodeURIComponent path @ ''/members''
                @ (case options of
                     None \<Rightarrow> ''/all''
                   | Some given \<Rightarrow> if inherited given = Some False then [] else ''/all''))
             (Some opts)),
          [(''per_page'', JNum (Num 100))] @ spread_blocked options)"
  by (auto simp: listUsers_def inherited_or_true_def split: option.splits)

theorem listUsers_group_members_witness:
  "listUsers (answering (page_response 200 None)) (new_GitLabClient two_integrations)
      ''https://gitlab.com/my-group/sub'' None
    = Inr ((\<lambda>opts. pagedRequest (answering (page_response 200 None))
                     (new_GitLabClient two_integrations)
                     ''/groups/my-group%2Fsub/members/all'' (Some opts)),
           [(''per_page'', JNum (Num 100))])
   \<and> listUsers (answering (page_response 200 None)) (new_GitLabClient two_integrations)
      ''https://gitlab.com/my-group/sub'' (Some \<lparr>inherited = Some False, blocked = Some True\<rparr>)
    = Inr ((\<lambda>opts. pagedRequest (answering (page_response 200 None))
                     (new_GitLabClient two_integrations)
                     ''/groups/my-group%2Fsub/members'' (Some opts)),
           [(''per_page'', JNum (Num 100)), (''blocked'', JBool True)])"
proof -
  let ?env = "answering (page_response 200 None) :: (unit, nat, string list) env"
  let ?client = "new_GitLabClient two_integrations"
  have i: "getIntegration ?client ''https://gitlab.com/my-group/sub'' = Inr gitlab_com"
    by (simp add: getIntegration_def new_GitLabClient_def two_integrations_def)
  have g: "parseGroupUrl ?env ''https://gitlab.com/my-group/sub'' (baseUrl (config gitlab_com))
             = Inr (Some ''my-group/sub'')"
    by (simp add: answering_def gitlab_com_def group_after_base_def)
  have p: "group_of (Some ''my-group/sub'') = Some ''my-group/sub''"
    by simp
  have b: "spread_blocked None = []"
    "spread_blocked (Some \<lparr>inherited = Some False, blocked = Some True\<rparr>) = [(''blocked'', JBool True)]"
    by (simp_all add: spread_blocked_def)
  show ?thesis
    using listUsers_group_members [OF i g p, of None]
      listUsers_group_members [OF i g p, of "Some \<lparr>inherited = Some False, blocked = Some True\<rparr>"]
    by (simp add: b encodeURIComponent_example)
qed

end
